theory Spec2Isabelle
  imports Complex_Main "HOL-Library.Multiset" "HOL-Library.Char_ord" "HOL-Library.List_Lexorder"
    "HOL-Library.Product_Lexorder"
begin

section \<open>Review model: \<^verbatim>\<open>fsrs_logic.py\<close>\<close>

text \<open>
  The function \<^verbatim>\<open>calculate_next_review\<close> is modelled twice. In the first model Python floats
  are the reals; it serves the properties that rounding does not touch: the bounds of the
  clamps, the one-day interval of a lapse, the whole days between review and due date, the
  monotone penalty. In the second model the floating-point operations are parameters, of
  which nothing is assumed; it serves the formulas of the update and the exact condition of
  a result, and at exact real arithmetic it is the first model. Python's unbounded integers
  are \<^typ>\<open>int\<close>. A naive \<^verbatim>\<open>datetime\<close> is the number of microseconds since
  0001-01-01T00:00:00, the smallest value of the type; the largest is
  9999-12-31T23:59:59.999999. The clock read \<^verbatim>\<open>datetime.utcnow()\<close> is the parameter \<open>now\<close>.
\<close>

datatype error = ValueError | OverflowError

datatype Rating = AGAIN | HARD | GOOD | EASY

text \<open>The call \<^verbatim>\<open>Rating(rating)\<close> of the \<^verbatim>\<open>IntEnum\<close>: a value that is no member raises.\<close>

definition Rating_call :: "int \<Rightarrow> error + Rating" where
  "Rating_call rating =
     (if rating = 1 then Inr AGAIN
      else if rating = 2 then Inr HARD
      else if rating = 3 then Inr GOOD
      else if rating = 4 then Inr EASY
      else Inl ValueError)"

type_synonym datetime = int

definition us_per_day :: int where
  "us_per_day = 86400000000"

definition datetime_max :: datetime where
  "datetime_max = 3652059 * us_per_day - 1"

text \<open>\<^verbatim>\<open>timedelta(days=n)\<close>: the magnitude of the days is limited to 999999999.\<close>

definition timedelta_days :: "int \<Rightarrow> error + int" where
  "timedelta_days n = (if \<bar>n\<bar> > 999999999 then Inl OverflowError else Inr (n * us_per_day))"

text \<open>\<^verbatim>\<open>datetime + timedelta\<close>: a sum outside the years 1 to 9999 raises.\<close>

definition datetime_add :: "datetime \<Rightarrow> int \<Rightarrow> error + datetime" where
  "datetime_add t delta =
     (if 0 \<le> t + delta \<and> t + delta \<le> datetime_max then Inr (t + delta) else Inl OverflowError)"

text \<open>Python's \<^verbatim>\<open>round(x)\<close> of a float: the nearest integer, a tie going to the even one.\<close>

definition py_round :: "real \<Rightarrow> int" where
  "py_round x =
     (let f = \<lfloor>x\<rfloor>; d = x - of_int f
      in if d < 1 / 2 then f else if 1 / 2 < d then f + 1 else if even f then f else f + 1)"

text \<open>The two dataclasses, over the type of the floating-point numbers.\<close>

record 'f FSRSReviewState =
  stability :: 'f
  difficulty :: 'f
  last_reviewed :: datetime

record 'f FSRSUpdateResult =
  stability :: 'f
  difficulty :: 'f
  last_reviewed :: datetime
  next_review_date :: datetime

text \<open>\<^verbatim>\<open>_clamp(value, low, high)\<close>.\<close>

definition clamp :: "real \<Rightarrow> real \<Rightarrow> real \<Rightarrow> real" where
  "clamp val low high = max low (min high val)"

text \<open>
  \<^verbatim>\<open>_retrievability\<close>. The power \<^verbatim>\<open>** -1\<close> of a float is its reciprocal; the base is at
  least 1, so the division by zero that the power raises cannot happen.
\<close>

definition retrievability :: "real \<Rightarrow> real \<Rightarrow> real" where
  "retrievability stab elapsed_days =
     (let safe_stability = max stab 0.1;
          safe_days = max elapsed_days 0
      in inverse (1 + safe_days / (9 * safe_stability)))"

text \<open>
  Lines 48 to 75 of \<^verbatim>\<open>calculate_next_review\<close>: the values of the local variables
  \<^verbatim>\<open>new_difficulty\<close>, \<^verbatim>\<open>new_stability\<close> and \<^verbatim>\<open>next_interval_days\<close> once the rating is
  converted.
\<close>

definition review_values :: "real FSRSReviewState \<Rightarrow> Rating \<Rightarrow> real \<Rightarrow> real \<times> real \<times> int" where
  "review_values last_state rating_value elapsed_days =
     (let previous_stability = max (FSRSReviewState.stability last_state) 0.1;
          previous_difficulty = clamp (FSRSReviewState.difficulty last_state) 1 10;
          r = retrievability previous_stability elapsed_days
      in if rating_value = AGAIN then
           (clamp (previous_difficulty + 0.6 * (1 - r)) 1 10,
            max 0.1 (previous_stability * (0.35 + 0.25 * r)),
            1)
         else
           let (difficulty_delta, recall_bonus, interval_multiplier) =
                 (if rating_value = HARD then (0.15, 0.9, 1.3)
                  else if rating_value = GOOD then (- 0.1, 1.2, 2.4)
                  else (- 0.3, 1.5, 3.2));
               new_difficulty = clamp (previous_difficulty + difficulty_delta) 1 10;
               growth = 1 + (11 - new_difficulty) * 0.04 * (1 - r) * recall_bonus;
               new_stability = max 0.1 (previous_stability * growth)
           in (new_difficulty, new_stability,
               max 1 (py_round (new_stability * interval_multiplier))))"

text \<open>
  The whole function: the conversion of the rating at entry, the values above, and the
  date arithmetic of lines 77 to 84, where \<^verbatim>\<open>timedelta\<close> and the sum may raise.
\<close>

definition calculate_next_review ::
  "datetime \<Rightarrow> real FSRSReviewState \<Rightarrow> int \<Rightarrow> real \<Rightarrow> error + real FSRSUpdateResult" where
  "calculate_next_review now last_state rating elapsed_days =
     (case Rating_call rating of
        Inl err \<Rightarrow> Inl err
      | Inr rating_value \<Rightarrow>
          (case review_values last_state rating_value elapsed_days of
             (new_difficulty, new_stability, next_interval_days) \<Rightarrow>
               (case timedelta_days next_interval_days of
                  Inl err \<Rightarrow> Inl err
                | Inr delta \<Rightarrow>
                    (case datetime_add now delta of
                       Inl err \<Rightarrow> Inl err
                     | Inr due \<Rightarrow>
                         Inr \<lparr>stability = new_stability, difficulty = new_difficulty,
                              last_reviewed = now, next_review_date = due\<rparr>))))"

text \<open>
  The same function with the floating-point arithmetic of the platform as parameters: the
  value of a decimal literal, the four operations, the power \<^verbatim>\<open>** -1\<close>, the comparison
  \<^verbatim>\<open><\<close>, and \<^verbatim>\<open>int(round(x))\<close>, which raises on an infinity or a NaN. Nothing is assumed
  of them, so what is proved of this model holds of the doubles of the platform. A negated
  literal is the literal of the negated decimal. The division and the power are taken to
  return: in the code the divisor is nine times a stability of at least 0.1 and the base is
  at least 1.
\<close>

record 'f float_ops =
  lit :: "real \<Rightarrow> 'f"
  fadd :: "'f \<Rightarrow> 'f \<Rightarrow> 'f"
  fsub :: "'f \<Rightarrow> 'f \<Rightarrow> 'f"
  fmul :: "'f \<Rightarrow> 'f \<Rightarrow> 'f"
  fdiv :: "'f \<Rightarrow> 'f \<Rightarrow> 'f"
  fpow_m1 :: "'f \<Rightarrow> 'f"
  flt :: "'f \<Rightarrow> 'f \<Rightarrow> bool"
  round_int :: "'f \<Rightarrow> error + int"

text \<open>
  \<^verbatim>\<open>max(a, b)\<close> returns \<open>b\<close> when \<open>b > a\<close> and \<open>a\<close> otherwise; \<^verbatim>\<open>min(a, b)\<close> returns \<open>b\<close> when
  \<open>b < a\<close> and \<open>a\<close> otherwise.
\<close>

definition fl_max :: "'f float_ops \<Rightarrow> 'f \<Rightarrow> 'f \<Rightarrow> 'f" where
  "fl_max ops a b = (if flt ops a b then b else a)"

definition fl_min :: "'f float_ops \<Rightarrow> 'f \<Rightarrow> 'f \<Rightarrow> 'f" where
  "fl_min ops a b = (if flt ops b a then b else a)"

definition clamp_fl :: "'f float_ops \<Rightarrow> 'f \<Rightarrow> 'f \<Rightarrow> 'f \<Rightarrow> 'f" where
  "clamp_fl ops val low high = fl_max ops low (fl_min ops high val)"

definition retrievability_fl :: "'f float_ops \<Rightarrow> 'f \<Rightarrow> 'f \<Rightarrow> 'f" where
  "retrievability_fl ops stab elapsed_days =
     (let safe_stability = fl_max ops stab (lit ops 0.1);
          safe_days = fl_max ops elapsed_days (lit ops 0)
      in fpow_m1 ops
           (fadd ops (lit ops 1) (fdiv ops safe_days (fmul ops (lit ops 9) safe_stability))))"

definition review_values_fl ::
  "'f float_ops \<Rightarrow> 'f FSRSReviewState \<Rightarrow> Rating \<Rightarrow> 'f \<Rightarrow> error + 'f \<times> 'f \<times> int" where
  "review_values_fl ops last_state rating_value elapsed_days =
     (let previous_stability = fl_max ops (FSRSReviewState.stability last_state) (lit ops 0.1);
          previous_difficulty =
            clamp_fl ops (FSRSReviewState.difficulty last_state) (lit ops 1) (lit ops 10);
          r = retrievability_fl ops previous_stability elapsed_days
      in if rating_value = AGAIN then
           Inr (clamp_fl ops
                  (fadd ops previous_difficulty (fmul ops (lit ops 0.6) (fsub ops (lit ops 1) r)))
                  (lit ops 1) (lit ops 10),
                fl_max ops (lit ops 0.1)
                  (fmul ops previous_stability
                     (fadd ops (lit ops 0.35) (fmul ops (lit ops 0.25) r))),
                1)
         else
           let (difficulty_delta, recall_bonus, interval_multiplier) =
                 (if rating_value = HARD then (lit ops 0.15, lit ops 0.9, lit ops 1.3)
                  else if rating_value = GOOD then (lit ops (- 0.1), lit ops 1.2, lit ops 2.4)
                  else (lit ops (- 0.3), lit ops 1.5, lit ops 3.2));
               new_difficulty =
                 clamp_fl ops (fadd ops previous_difficulty difficulty_delta)
                   (lit ops 1) (lit ops 10);
               growth =
                 fadd ops (lit ops 1)
                   (fmul ops
                      (fmul ops (fmul ops (fsub ops (lit ops 11) new_difficulty) (lit ops 0.04))
                         (fsub ops (lit ops 1) r))
                      recall_bonus);
               new_stability = fl_max ops (lit ops 0.1) (fmul ops previous_stability growth)
           in case round_int ops (fmul ops new_stability interval_multiplier) of
                Inl err \<Rightarrow> Inl err
              | Inr n \<Rightarrow> Inr (new_difficulty, new_stability, max 1 n))"

definition calculate_next_review_fl ::
  "'f float_ops \<Rightarrow> datetime \<Rightarrow> 'f FSRSReviewState \<Rightarrow> int \<Rightarrow> 'f
   \<Rightarrow> error + 'f FSRSUpdateResult" where
  "calculate_next_review_fl ops now last_state rating elapsed_days =
     (case Rating_call rating of
        Inl err \<Rightarrow> Inl err
      | Inr rating_value \<Rightarrow>
          (case review_values_fl ops last_state rating_value elapsed_days of
             Inl err \<Rightarrow> Inl err
           | Inr (new_difficulty, new_stability, next_interval_days) \<Rightarrow>
               (case timedelta_days next_interval_days of
                  Inl err \<Rightarrow> Inl err
                | Inr delta \<Rightarrow>
                    (case datetime_add now delta of
                       Inl err \<Rightarrow> Inl err
                     | Inr due \<Rightarrow>
                         Inr \<lparr>FSRSUpdateResult.stability = new_stability,
                              difficulty = new_difficulty,
                              last_reviewed = now, next_review_date = due\<rparr>))))"

text \<open>The operations of exact real arithmetic, with Python's rounding to an integer.\<close>

definition real_ops :: "real float_ops" where
  "real_ops = \<lparr>lit = (\<lambda>x. x), fadd = (+), fsub = (-), fmul = (*), fdiv = (/),
               fpow_m1 = inverse, flt = (<), round_int = (\<lambda>x. Inr (py_round x))\<rparr>"



text \<open>
  Concrete inputs: the synthetic prior of a first review, a review instant on 2026-11-05,
  and a prior whose stability is very large.
\<close>

definition state0 :: "real FSRSReviewState" where
  "state0 = \<lparr>FSRSReviewState.stability = 0.5, difficulty = 5,
             last_reviewed = 63929347200000000\<rparr>"

definition now0 :: datetime where
  "now0 = 63929433600000000"

definition state_huge :: "real FSRSReviewState" where
  "state_huge = \<lparr>FSRSReviewState.stability = 1000000000, difficulty = 5,
                 last_reviewed = 63929347200000000\<rparr>"

section \<open>Verification harness: \<^verbatim>\<open>workflow.py\<close>\<close>

text \<open>
  A Python \<^verbatim>\<open>str\<close> is a list of characters; \<^typ>\<open>char\<close> covers the code points below 256.
  The white space of \<^verbatim>\<open>str.strip\<close> and \<^verbatim>\<open>str.rstrip\<close> in that range is: tab, line feed,
  vertical tab, form feed, carriage return, the four separators 28 to 31, space, next line
  (133) and no-break space (160).
\<close>

definition LF :: char where
  "LF = CHR 0x0A"

definition CR :: char where
  "CR = CHR 0x0D"

definition is_space :: "char \<Rightarrow> bool" where
  "is_space c = (of_char c \<in> {9, 10, 11, 12, 13, 28, 29, 30, 31, 32, 133, 160 :: nat})"

definition lstrip :: "string \<Rightarrow> string" where
  "lstrip s = dropWhile is_space s"

definition rstrip :: "string \<Rightarrow> string" where
  "rstrip s = rev (dropWhile is_space (rev s))"

definition strip :: "string \<Rightarrow> string" where
  "strip s = rstrip (lstrip s)"

text \<open>\<^verbatim>\<open>content.replace("\r\n", "\n")\<close>: the occurrences from left to right, without overlap.\<close>

fun replace_crlf :: "string \<Rightarrow> string" where
  "replace_crlf (c # d # cs) =
     (if c = CR \<and> d = LF then LF # replace_crlf cs else c # replace_crlf (d # cs))"
| "replace_crlf cs = cs"

text \<open>\<^verbatim>\<open>.replace("\r", "\n")\<close>.\<close>

definition replace_cr :: "string \<Rightarrow> string" where
  "replace_cr s = map (\<lambda>c. if c = CR then LF else c) s"

text \<open>\<^verbatim>\<open>s.split("\n")\<close>: at least one piece, the pieces between the line feeds.\<close>

fun split_nl :: "string \<Rightarrow> string list" where
  "split_nl [] = [[]]"
| "split_nl (c # cs) =
     (if c = LF then [] # split_nl cs
      else (case split_nl cs of [] \<Rightarrow> [[c]] | l # ls \<Rightarrow> (c # l) # ls))"

text \<open>\<^verbatim>\<open>sep.join(parts)\<close>.\<close>

fun join :: "string \<Rightarrow> string list \<Rightarrow> string" where
  "join sep [] = []"
| "join sep [x] = x"
| "join sep (x # y # ys) = x @ sep @ join sep (y # ys)"

definition normalize_output :: "string \<Rightarrow> string" where
  "normalize_output content =
     (let normalized = replace_cr (replace_crlf content)
      in join [LF] (map rstrip (split_nl (strip normalized))))"

text \<open>A text that neither begins nor ends with white space.\<close>

definition stripped :: "string \<Rightarrow> bool" where
  "stripped s \<longleftrightarrow> s = [] \<or> (\<not> is_space (hd s) \<and> \<not> is_space (last s))"




datatype os_error = FileNotFoundError | PermissionError | UnicodeDecodeError




















section \<open>Review queue: the query of \<^verbatim>\<open>_populate_daily_review\<close> in \<^verbatim>\<open>tui.py\<close>\<close>


record FSRSState =
  problem_id :: int
  stability :: real
  difficulty :: real
  last_reviewed :: datetime
  next_review_date :: datetime













section \<open>Properties of the review model\<close>

lemma clamp_range: "1 \<le> clamp x 1 10" "clamp x 1 10 \<le> 10"
  by (simp_all add: clamp_def)

lemma review_values_AGAIN:
  "review_values st AGAIN e =
     (clamp (clamp (FSRSReviewState.difficulty st) 1 10
             + 0.6 * (1 - retrievability (max (FSRSReviewState.stability st) 0.1) e)) 1 10,
      max 0.1 (max (FSRSReviewState.stability st) 0.1
               * (0.35 + 0.25 * retrievability (max (FSRSReviewState.stability st) 0.1) e)),
      1)"
  by (simp add: review_values_def Let_def)

lemma review_values_recalled:
  assumes "rv \<noteq> AGAIN"
  shows "review_values st rv e =
     (let (difficulty_delta, recall_bonus, interval_multiplier) =
            (case rv of HARD \<Rightarrow> (0.15, 0.9, 1.3) | GOOD \<Rightarrow> (- 0.1, 1.2, 2.4) | _ \<Rightarrow> (- 0.3, 1.5, 3.2));
          nd = clamp (clamp (FSRSReviewState.difficulty st) 1 10 + difficulty_delta) 1 10;
          ns = max 0.1 (max (FSRSReviewState.stability st) 0.1
                 * (1 + (11 - nd) * 0.04
                        * (1 - retrievability (max (FSRSReviewState.stability st) 0.1) e)
                        * recall_bonus))
      in (nd, ns, max 1 (py_round (ns * interval_multiplier))))"
  using assms by (cases rv) (simp_all add: review_values_def Let_def)

lemma review_values_shape:
  "\<exists>x y z. review_values st rv e = (clamp x 1 10, max 0.1 y, max 1 z)"
proof (cases "rv = AGAIN")
  case True
  have "(1::int) = max 1 1" by simp
  then show ?thesis unfolding True review_values_AGAIN by blast
next
  case False
  show ?thesis unfolding review_values_recalled[OF False] Let_def
    by (simp only: split_beta) blast
qed

lemma review_values_bounds:
  assumes "review_values st rv e = (nd, ns, n)"
  shows "1 \<le> nd" "nd \<le> 10" "0.1 \<le> ns" "1 \<le> n"
proof -
  obtain x y z where "review_values st rv e = (clamp x 1 10, max 0.1 y, max 1 z)"
    using review_values_shape by blast
  with assms have "nd = clamp x 1 10" "ns = max 0.1 y" "n = max 1 z" by simp_all
  then show "1 \<le> nd" "nd \<le> 10" "0.1 \<le> ns" "1 \<le> n"
    by (simp_all add: clamp_range)
qed

lemma retrievability_antimono:
  assumes "e1 \<le> e2"
  shows "retrievability s e2 \<le> retrievability s e1"
proof -
  have pos: "0 < 9 * max s 0.1" by simp
  have le: "max e1 0 / (9 * max s 0.1) \<le> max e2 0 / (9 * max s 0.1)"
    using assms pos by (intro divide_right_mono) auto
  have nn: "0 \<le> max e1 0 / (9 * max s 0.1)" using pos by (intro divide_nonneg_pos) auto
  have "inverse (1 + max e2 0 / (9 * max s 0.1)) \<le> inverse (1 + max e1 0 / (9 * max s 0.1))"
  proof (rule le_imp_inverse_le)
    show "1 + max e1 0 / (9 * max s 0.1) \<le> 1 + max e2 0 / (9 * max s 0.1)"
      using le by (simp only: add_le_cancel_left)
    show "0 < 1 + max e1 0 / (9 * max s 0.1)" using nn by (rule add_pos_nonneg[OF zero_less_one])
  qed
  then show ?thesis by (simp only: retrievability_def Let_def)
qed

lemma calculate_next_review_Inr:
  "calculate_next_review now st rating e = Inr res \<longleftrightarrow>
     (\<exists>rv nd ns n. Rating_call rating = Inr rv \<and> review_values st rv e = (nd, ns, n) \<and>
        n \<le> 999999999 \<and> 0 \<le> now + n * us_per_day \<and> now + n * us_per_day \<le> datetime_max \<and>
        res = \<lparr>FSRSUpdateResult.stability = ns, difficulty = nd, last_reviewed = now,
                next_review_date = now + n * us_per_day\<rparr>)"
  (is "?L \<longleftrightarrow> ?R")
proof
  assume L: ?L
  then obtain rv where rv: "Rating_call rating = Inr rv"
    by (cases "Rating_call rating") (simp_all add: calculate_next_review_def)
  obtain nd ns n where v: "review_values st rv e = (nd, ns, n)"
    by (cases "review_values st rv e") blast
  from v have n1: "1 \<le> n" by (rule review_values_bounds)
  from L rv v have a: "\<bar>n\<bar> \<le> 999999999"
    by (simp add: calculate_next_review_def timedelta_days_def split: if_splits)
  with L rv v have b: "0 \<le> now + n * us_per_day \<and> now + n * us_per_day \<le> datetime_max"
    by (simp add: calculate_next_review_def timedelta_days_def datetime_add_def split: if_splits)
  with L rv v a have "res = \<lparr>FSRSUpdateResult.stability = ns, difficulty = nd, last_reviewed = now,
                next_review_date = now + n * us_per_day\<rparr>"
    by (simp add: calculate_next_review_def timedelta_days_def datetime_add_def)
  with rv v a b show ?R by auto
next
  assume ?R
  then obtain rv nd ns n where h: "Rating_call rating = Inr rv" "review_values st rv e = (nd, ns, n)"
        "n \<le> 999999999" "0 \<le> now + n * us_per_day" "now + n * us_per_day \<le> datetime_max"
        "res = \<lparr>FSRSUpdateResult.stability = ns, difficulty = nd, last_reviewed = now,
                next_review_date = now + n * us_per_day\<rparr>" by blast
  from h(2) have "1 \<le> n" by (rule review_values_bounds)
  with h show ?L
    by (simp add: calculate_next_review_def timedelta_days_def datetime_add_def)
qed


lemma retrievability_half_1: "retrievability (1 / 2) 1 = 9 / 11"
  by (simp add: retrievability_def)

lemma retrievability_half_2: "retrievability (1 / 2) 2 = 9 / 13"
  by (simp add: retrievability_def)

lemma py_round_example: "py_round (43446 / 34375) = 1"
  by (simp add: py_round_def Let_def)

lemma review_values_state0_GOOD: "review_values state0 GOOD 1 = (49 / 10, 7241 / 13750, 1)"
  by (simp add: review_values_def state0_def retrievability_half_1 clamp_def py_round_example Let_def)

lemma review_values_state0_AGAIN: "review_values state0 AGAIN 1 = (281 / 55, 61 / 220, 1)"
  by (simp add: review_values_def state0_def retrievability_half_1 clamp_def Let_def)

lemma calculate_next_review_state0_GOOD:
  "calculate_next_review now0 state0 3 1 =
     Inr \<lparr>FSRSUpdateResult.stability = 7241 / 13750, difficulty = 49 / 10, last_reviewed = now0,
          next_review_date = now0 + us_per_day\<rparr>"
  by (simp add: calculate_next_review_def Rating_call_def review_values_state0_GOOD
      timedelta_days_def datetime_add_def now0_def us_per_day_def datetime_max_def)

lemma calculate_next_review_state0_AGAIN:
  "calculate_next_review now0 state0 1 1 =
     Inr \<lparr>FSRSUpdateResult.stability = 61 / 220, difficulty = 281 / 55, last_reviewed = now0,
          next_review_date = now0 + us_per_day\<rparr>"
  by (simp add: calculate_next_review_def Rating_call_def review_values_state0_AGAIN
      timedelta_days_def datetime_add_def now0_def us_per_day_def datetime_max_def)

lemma real_ops_simps:
  "lit real_ops x = x" "fadd real_ops = (+)" "fsub real_ops = (-)" "fmul real_ops = (*)"
  "fdiv real_ops = (/)" "fpow_m1 real_ops = inverse" "flt real_ops = (<)"
  "round_int real_ops x = Inr (py_round x)"
  by (simp_all add: real_ops_def)

lemma fl_max_real: "fl_max real_ops a b = max a b"
  by (auto simp: fl_max_def real_ops_simps max_def)

lemma fl_min_real: "fl_min real_ops a b = min a b"
  by (auto simp: fl_min_def real_ops_simps min_def)

lemma clamp_fl_real: "clamp_fl real_ops v lo hi = clamp v lo hi"
  by (simp add: clamp_fl_def clamp_def fl_max_real fl_min_real)

lemma retrievability_fl_real: "retrievability_fl real_ops s e = retrievability s e"
  by (simp add: retrievability_fl_def retrievability_def fl_max_real real_ops_simps Let_def)

lemma review_values_fl_real: "review_values_fl real_ops st rv e = Inr (review_values st rv e)"
  by (cases rv)
     (simp_all add: review_values_fl_def review_values_def clamp_fl_real fl_max_real
        retrievability_fl_real real_ops_simps Let_def)

lemma calculate_next_review_fl_real:
  "calculate_next_review_fl real_ops now st rating e = calculate_next_review now st rating e"
  by (simp add: calculate_next_review_fl_def calculate_next_review_def review_values_fl_real
      split: sum.splits prod.splits)

lemma review_values_fl_AGAIN:
  "\<exists>nd ns. review_values_fl ops st AGAIN e = Inr (nd, ns, 1)"
  by (simp add: review_values_fl_def Let_def)

lemma review_values_fl_days:
  assumes "review_values_fl ops st rv e = Inr (nd, ns, n)"
  shows "1 \<le> n"
proof (cases "rv = AGAIN")
  case True
  with assms review_values_fl_AGAIN[of ops st e] show ?thesis by auto
next
  case False
  with assms show ?thesis
    by (auto simp: review_values_fl_def Let_def split: sum.splits prod.splits)
qed













text \<open>
  Claim C5. Whatever the prior stability and difficulty, the rating and the elapsed time, a
  state returned by \<^verbatim>\<open>calculate_next_review\<close> has its difficulty between 1 and 10 and its
  stability at least 0.1.
\<close>

theorem result_within_bounds:
  assumes "calculate_next_review now st rating e = Inr res"
  shows "1 \<le> FSRSUpdateResult.difficulty res \<and> FSRSUpdateResult.difficulty res \<le> 10 \<and> 0.1 \<le> FSRSUpdateResult.stability res"
proof -
  from assms obtain rv nd ns n where h: "review_values st rv e = (nd, ns, n)"
      "res = \<lparr>FSRSUpdateResult.stability = ns, difficulty = nd, last_reviewed = now,
                next_review_date = now + n * us_per_day\<rparr>"
    unfolding calculate_next_review_Inr by blast
  from review_values_bounds[OF h(1)] show ?thesis by (simp add: h(2))
qed

theorem result_within_bounds_witness:
  "calculate_next_review now0 state0 3 1 =
     Inr \<lparr>FSRSUpdateResult.stability = 7241 / 13750, difficulty = 49 / 10, last_reviewed = now0,
          next_review_date = now0 + us_per_day\<rparr>
   \<and> (1::real) \<le> 49 / 10 \<and> (49 / 10 :: real) \<le> 10 \<and> (0.1::real) \<le> 7241 / 13750"
  using result_within_bounds [OF calculate_next_review_state0_GOOD]
    calculate_next_review_state0_GOOD by simp

text \<open>
  Claim C6. With the rating Again, for every prior state and every elapsed time, the due
  date of a result is exactly one day after its review instant; and a result is returned
  whenever that day still exists in the calendar.
\<close>

theorem again_interval_one_day:
  "(\<forall>res. calculate_next_review now st 1 e = Inr res \<longrightarrow>
       FSRSUpdateResult.next_review_date res = FSRSUpdateResult.last_reviewed res + us_per_day)
   \<and> (0 \<le> now \<and> now + us_per_day \<le> datetime_max \<longrightarrow>
       (\<exists>res. calculate_next_review now st 1 e = Inr res))"
proof -
  have rc: "Rating_call 1 = Inr AGAIN" by (simp add: Rating_call_def)
  obtain nd ns where v: "review_values st AGAIN e = (nd, ns, 1)"
    using review_values_AGAIN by blast
  have one: "FSRSUpdateResult.next_review_date res = FSRSUpdateResult.last_reviewed res + us_per_day"
    if "calculate_next_review now st 1 e = Inr res" for res
  proof -
    from that obtain rv nd' ns' n where h: "Rating_call 1 = Inr rv"
      "review_values st rv e = (nd', ns', n)"
      "res = \<lparr>FSRSUpdateResult.stability = ns', difficulty = nd', last_reviewed = now,
                next_review_date = now + n * us_per_day\<rparr>"
      unfolding calculate_next_review_Inr by blast
    from h(1) rc have "rv = AGAIN" by simp
    with h(2) v have "n = 1" by simp
    then show ?thesis by (simp add: h(3))
  qed
  have ex: "\<exists>res. calculate_next_review now st 1 e = Inr res"
    if "0 \<le> now \<and> now + us_per_day \<le> datetime_max"
  proof -
    have "0 \<le> now + 1 * us_per_day" using that by (simp add: us_per_day_def)
    moreover have "now + 1 * us_per_day \<le> datetime_max" using that by simp
    ultimately have "calculate_next_review now st 1 e =
        Inr \<lparr>FSRSUpdateResult.stability = ns, difficulty = nd, last_reviewed = now,
             next_review_date = now + 1 * us_per_day\<rparr>"
      unfolding calculate_next_review_Inr using rc v by auto
    then show ?thesis by blast
  qed
  from one ex show ?thesis by blast
qed

theorem again_interval_one_day_witness:
  "0 \<le> now0 \<and> now0 + us_per_day \<le> datetime_max
   \<and> calculate_next_review now0 state0 1 1 =
       Inr \<lparr>FSRSUpdateResult.stability = 61 / 220, difficulty = 281 / 55, last_reviewed = now0,
            next_review_date = now0 + us_per_day\<rparr>
   \<and> FSRSUpdateResult.next_review_date \<lparr>FSRSUpdateResult.stability = 61 / 220, difficulty = 281 / 55, last_reviewed = now0,
            next_review_date = now0 + us_per_day\<rparr>
      = FSRSUpdateResult.last_reviewed \<lparr>FSRSUpdateResult.stability = 61 / 220, difficulty = 281 / 55, last_reviewed = now0,
            next_review_date = now0 + us_per_day\<rparr> + us_per_day"
proof -
  have r: "0 \<le> now0 \<and> now0 + us_per_day \<le> datetime_max"
    by (simp add: now0_def us_per_day_def datetime_max_def)
  from again_interval_one_day [of now0 state0 1] calculate_next_review_state0_AGAIN r
  show ?thesis by simp
qed

text \<open>
  Claim C7. In every result of \<^verbatim>\<open>calculate_next_review\<close> the due date is not before the review
  instant, and the two are a whole number of days apart, at least one.
\<close>

theorem due_after_reviewed:
  assumes "calculate_next_review now st rating e = Inr res"
  shows "FSRSUpdateResult.last_reviewed res \<le> FSRSUpdateResult.next_review_date res
         \<and> (\<exists>days\<ge>1. FSRSUpdateResult.next_review_date res - FSRSUpdateResult.last_reviewed res = days * us_per_day)"
proof -
  from assms obtain rv nd ns n where h: "review_values st rv e = (nd, ns, n)"
      "res = \<lparr>FSRSUpdateResult.stability = ns, difficulty = nd, last_reviewed = now,
                next_review_date = now + n * us_per_day\<rparr>"
    unfolding calculate_next_review_Inr by blast
  from review_values_bounds(4)[OF h(1)] have n1: "1 \<le> n" .
  then have "0 \<le> n * us_per_day" by (simp add: us_per_day_def)
  then have "FSRSUpdateResult.last_reviewed res \<le> FSRSUpdateResult.next_review_date res" by (simp add: h(2))
  moreover have "FSRSUpdateResult.next_review_date res - FSRSUpdateResult.last_reviewed res = n * us_per_day" by (simp add: h(2))
  ultimately show ?thesis using n1 by blast
qed

theorem due_after_reviewed_witness:
  "calculate_next_review now0 state0 3 1 =
     Inr \<lparr>FSRSUpdateResult.stability = 7241 / 13750, difficulty = 49 / 10, last_reviewed = now0,
          next_review_date = now0 + us_per_day\<rparr>
   \<and> now0 \<le> now0 + us_per_day
   \<and> (\<exists>days\<ge>1. now0 + us_per_day - now0 = days * us_per_day)"
  using due_after_reviewed [OF calculate_next_review_state0_GOOD]
    calculate_next_review_state0_GOOD by simp

text \<open>
  Claim C8. The difficulty penalty \<open>0.6 * (1 - r)\<close> that the rating Again adds before
  clamping does not decrease when the elapsed time grows, the stability being fixed.
\<close>

theorem again_penalty_monotone:
  assumes "e1 \<le> e2"
  shows "0.6 * (1 - retrievability s e1) \<le> 0.6 * (1 - retrievability s e2)"
  using retrievability_antimono [OF assms] by simp

theorem again_penalty_monotone_witness:
  "(1::real) \<le> 2 \<and> 0.6 * (1 - 9 / 11) \<le> (0.6 * (1 - 9 / 13) :: real)"
  using again_penalty_monotone [of 1 2 "1 / 2"]
  by (simp add: retrievability_half_1 retrievability_half_2)

lemma retrievability_huge_0: "retrievability 1000000000 0 = 1"
  by (simp add: retrievability_def)

lemma py_round_huge: "py_round 2400000000 = 2400000000"
  by (simp add: py_round_def Let_def)

lemma review_values_state_huge_GOOD:
  "review_values state_huge GOOD 0 = (49 / 10, 1000000000, 2400000000)"
  by (simp add: review_values_def state_huge_def retrievability_huge_0 clamp_def
      py_round_huge Let_def)

text \<open>
  A rating in 1..4 does not always give a result: a prior stability of \<open>10\<^sup>9\<close> with the
  rating Good asks for an interval of 2400000000 days, which \<^verbatim>\<open>timedelta\<close> refuses.
\<close>

theorem rating_validation_counterexample:
  "calculate_next_review now0 state_huge 3 0 = Inl OverflowError"
  by (simp add: calculate_next_review_def Rating_call_def review_values_state_huge_GOOD
      timedelta_days_def)

text \<open>
  Claim C10, as amended. An integer rating outside 1..4 makes \<^verbatim>\<open>calculate_next_review\<close> raise
  \<^verbatim>\<open>ValueError\<close> and return nothing. For a rating in 1..4 the conversion succeeds; a result is
  then returned exactly when the rounding of the interval returns, the interval is at most
  999999999 days and the due date is a valid datetime, not after the year 9999. Otherwise
  the call raises: the error of the rounding, or \<^verbatim>\<open>OverflowError\<close> from the date arithmetic.
  The floating-point arithmetic is the platform's, whatever it is.
\<close>

theorem rating_validation:
  "(rating \<notin> {1, 2, 3, 4} \<longrightarrow> calculate_next_review_fl ops now st rating e = Inl ValueError)
   \<and> (rating \<in> {1, 2, 3, 4} \<longrightarrow>
        (\<exists>rv. Rating_call rating = Inr rv
           \<and> (case review_values_fl ops st rv e of
                Inl err \<Rightarrow> calculate_next_review_fl ops now st rating e = Inl err
              | Inr (new_difficulty, new_stability, days) \<Rightarrow>
                  if days \<le> 999999999 \<and> 0 \<le> now + days * us_per_day
                     \<and> now + days * us_per_day \<le> datetime_max
                  then \<exists>res. calculate_next_review_fl ops now st rating e = Inr res
                  else calculate_next_review_fl ops now st rating e = Inl OverflowError)))"
proof -
  have out: "calculate_next_review_fl ops now st rating e = Inl ValueError"
    if "rating \<notin> {1, 2, 3, 4}"
    using that by (simp add: calculate_next_review_fl_def Rating_call_def)
  have inn: "\<exists>rv. Rating_call rating = Inr rv
           \<and> (case review_values_fl ops st rv e of
                Inl err \<Rightarrow> calculate_next_review_fl ops now st rating e = Inl err
              | Inr (new_difficulty, new_stability, days) \<Rightarrow>
                  if days \<le> 999999999 \<and> 0 \<le> now + days * us_per_day
                     \<and> now + days * us_per_day \<le> datetime_max
                  then \<exists>res. calculate_next_review_fl ops now st rating e = Inr res
                  else calculate_next_review_fl ops now st rating e = Inl OverflowError)"
    if "rating \<in> {1, 2, 3, 4}"
  proof -
    from that obtain rv where rv: "Rating_call rating = Inr rv"
      by (auto simp: Rating_call_def)
    show ?thesis
    proof (cases "review_values_fl ops st rv e")
      case (Inl err)
      with rv show ?thesis by (simp add: calculate_next_review_fl_def)
    next
      case (Inr v)
      obtain nd ns n where v: "v = (nd, ns, n)" by (cases v) auto
      from Inr v have n1: "1 \<le> n" by (auto dest: review_values_fl_days)
      have "if n \<le> 999999999 \<and> 0 \<le> now + n * us_per_day \<and> now + n * us_per_day \<le> datetime_max
          then \<exists>res. calculate_next_review_fl ops now st rating e = Inr res
          else calculate_next_review_fl ops now st rating e = Inl OverflowError"
        using rv Inr v n1
        by (simp add: calculate_next_review_fl_def timedelta_days_def datetime_add_def)
      with rv Inr v show ?thesis by simp
    qed
  qed
  from out inn show ?thesis by blast
qed

theorem rating_validation_witness:
  "(7::int) \<notin> {1, 2, 3, 4}
   \<and> calculate_next_review_fl real_ops now0 state0 7 1 = Inl ValueError
   \<and> (3::int) \<in> {1, 2, 3, 4} \<and> Rating_call 3 = Inr GOOD
   \<and> calculate_next_review_fl real_ops now0 state0 3 1 =
       Inr \<lparr>FSRSUpdateResult.stability = 7241 / 13750, difficulty = 49 / 10,
            last_reviewed = now0, next_review_date = now0 + us_per_day\<rparr>"
proof -
  have a: "(7::int) \<notin> {1, 2, 3, 4}" by simp
  have b: "(3::int) \<in> {1, 2, 3, 4}" by simp
  have c: "Rating_call 3 = Inr GOOD" by (simp add: Rating_call_def)
  from rating_validation [of 7 real_ops now0 state0 1] a
  have d: "calculate_next_review_fl real_ops now0 state0 7 1 = Inl ValueError" by blast
  from rating_validation [of 3 real_ops now0 state0 1] b
  have f: "\<exists>rv. Rating_call 3 = Inr rv" by blast
  have g: "calculate_next_review_fl real_ops now0 state0 3 1 =
       Inr \<lparr>FSRSUpdateResult.stability = 7241 / 13750, difficulty = 49 / 10,
            last_reviewed = now0, next_review_date = now0 + us_per_day\<rparr>"
    by (simp only: calculate_next_review_fl_real calculate_next_review_state0_GOOD)
  with a b c d f show ?thesis by simp
qed

section \<open>Properties of the verification harness\<close>

lemma is_space_LF: "is_space LF"
  by (simp add: is_space_def LF_def)

lemma CR_neq_LF: "CR \<noteq> LF"
  by (simp add: CR_def LF_def)

lemma rstrip_Nil: "rstrip [] = []"
  by (simp add: rstrip_def)

lemma rstrip_Cons:
  "rstrip (c # s) = (if is_space c \<and> rstrip s = [] then [] else c # rstrip s)"
  by (auto simp: rstrip_def dropWhile_append)

lemma rstrip_idem: "rstrip (rstrip s) = rstrip s"
  by (simp add: rstrip_def)

lemma set_rstrip: "set (rstrip s) \<subseteq> set s"
  by (auto simp: rstrip_def dest: set_dropWhileD)

lemma rstrip_last: "rstrip s = [] \<or> \<not> is_space (last (rstrip s))"
proof (cases "dropWhile is_space (rev s) = []")
  case True
  then show ?thesis by (simp add: rstrip_def)
next
  case False
  then have "\<not> is_space (hd (dropWhile is_space (rev s)))" by (rule hd_dropWhile)
  with False show ?thesis by (simp add: rstrip_def last_rev)
qed

lemma rstrip_id:
  assumes "s = [] \<or> \<not> is_space (last s)"
  shows "rstrip s = s"
proof -
  from assms have "rev s = [] \<or> \<not> is_space (hd (rev s))" by (auto simp: hd_rev)
  then have "dropWhile is_space (rev s) = rev s" by (simp only: dropWhile_eq_self_iff)
  then show ?thesis by (simp add: rstrip_def)
qed

lemma stripped_strip: "stripped (strip s)"
proof (cases "lstrip s")
  case Nil
  then show ?thesis by (simp add: strip_def stripped_def rstrip_Nil)
next
  case (Cons c t)
  then have "dropWhile is_space s \<noteq> []" by (simp add: lstrip_def)
  then have "\<not> is_space (hd (dropWhile is_space s))" by (rule hd_dropWhile)
  with Cons have c: "\<not> is_space c" by (simp add: lstrip_def)
  then have eq: "strip s = c # rstrip t" by (simp add: strip_def Cons rstrip_Cons)
  from rstrip_last[of "c # t"] c have "\<not> is_space (last (c # rstrip t))"
    by (simp add: rstrip_Cons)
  with c eq show ?thesis by (simp add: stripped_def)
qed

lemma strip_id:
  assumes "stripped s"
  shows "strip s = s"
proof -
  from assms have "s = [] \<or> \<not> is_space (hd s)" by (auto simp: stripped_def)
  then have "lstrip s = s" by (simp only: lstrip_def dropWhile_eq_self_iff)
  moreover from assms have "rstrip s = s" by (intro rstrip_id) (auto simp: stripped_def)
  ultimately show ?thesis by (simp add: strip_def)
qed

lemma set_strip: "set (strip s) \<subseteq> set s"
proof -
  have "set (strip s) \<subseteq> set (lstrip s)" unfolding strip_def by (rule set_rstrip)
  also have "\<dots> \<subseteq> set s" by (auto simp: lstrip_def dest: set_dropWhileD)
  finally show ?thesis .
qed

lemma no_CR_replace_cr: "CR \<notin> set (replace_cr s)"
  by (auto simp: replace_cr_def CR_neq_LF)

lemma replace_cr_id: "CR \<notin> set s \<Longrightarrow> replace_cr s = s"
  by (induction s) (auto simp: replace_cr_def)

lemma replace_crlf_id: "CR \<notin> set s \<Longrightarrow> replace_crlf s = s"
  by (induction s rule: replace_crlf.induct) auto

lemma split_nl_nonempty: "split_nl s \<noteq> []"
  by (induction s) (auto split: list.splits)

lemma split_nl_no_LF: "l \<in> set (split_nl s) \<Longrightarrow> LF \<notin> set l"
  by (induction s arbitrary: l) (auto split: list.splits if_splits)

lemma set_split_nl: "l \<in> set (split_nl s) \<Longrightarrow> set l \<subseteq> set s"
proof (induction s arbitrary: l)
  case Nil
  then show ?case by simp
next
  case (Cons c cs)
  obtain l' ls where sp: "split_nl cs = l' # ls"
    using split_nl_nonempty[of cs] by (cases "split_nl cs") auto
  show ?case
  proof (cases "c = LF")
    case True
    with Cons.prems have "l = [] \<or> l \<in> set (split_nl cs)" by simp
    with Cons.IH show ?thesis by auto
  next
    case False
    with Cons.prems sp have "l = c # l' \<or> l \<in> set ls" by simp
    moreover have "set l' \<subseteq> set cs" using Cons.IH[of l'] sp by simp
    moreover have "l \<in> set ls \<Longrightarrow> set l \<subseteq> set cs" using Cons.IH[of l] sp by simp
    ultimately show ?thesis by auto
  qed
qed

lemma join_split_nl: "join [LF] (split_nl s) = s"
proof (induction s)
  case Nil
  show ?case by simp
next
  case (Cons c cs)
  obtain l ls where sp: "split_nl cs = l # ls"
    using split_nl_nonempty[of cs] by (cases "split_nl cs") auto
  show ?case
  proof (cases "c = LF")
    case True
    with Cons sp show ?thesis by simp
  next
    case False
    with Cons sp show ?thesis by (cases ls) auto
  qed
qed

lemma split_nl_line: "LF \<notin> set l \<Longrightarrow> split_nl l = [l]"
  by (induction l) auto

lemma split_nl_append: "LF \<notin> set l \<Longrightarrow> split_nl (l @ LF # rest) = l # split_nl rest"
  by (induction l) auto

lemma split_nl_join:
  assumes "ls \<noteq> []" "\<forall>l\<in>set ls. LF \<notin> set l"
  shows "split_nl (join [LF] ls) = ls"
  using assms
proof (induction ls)
  case Nil
  then show ?case by simp
next
  case (Cons x xs)
  show ?case
  proof (cases xs)
    case Nil
    with Cons.prems show ?thesis by (simp add: split_nl_line)
  next
    case (Cons y ys)
    with Cons.prems Cons.IH have "split_nl (join [LF] xs) = xs" by simp
    moreover from Cons have "join [LF] (x # xs) = x @ LF # join [LF] xs" by simp
    moreover from Cons.prems have "LF \<notin> set x" by simp
    ultimately show ?thesis by (simp add: split_nl_append)
  qed
qed

lemma set_join: "set (join sep ls) \<subseteq> \<Union>(set ` set ls) \<union> set sep"
  by (induction sep ls rule: join.induct) auto

lemma join_hd: "l \<noteq> [] \<Longrightarrow> join sep (l # ls) \<noteq> [] \<and> hd (join sep (l # ls)) = hd l"
  by (cases ls) auto

lemma join_last:
  "ls \<noteq> [] \<Longrightarrow> last ls \<noteq> [] \<Longrightarrow> join sep ls \<noteq> [] \<and> last (join sep ls) = last (last ls)"
  by (induction sep ls rule: join.induct) auto

lemma split_nl_hd: "c \<noteq> LF \<Longrightarrow> \<exists>t ls. split_nl (c # cs) = (c # t) # ls"
  using split_nl_nonempty[of cs] by (cases "split_nl cs") auto

lemma split_nl_last:
  "s \<noteq> [] \<Longrightarrow> last s \<noteq> LF \<Longrightarrow> last (split_nl s) \<noteq> [] \<and> last (last (split_nl s)) = last s"
proof (induction s)
  case Nil
  then show ?case by simp
next
  case (Cons c cs)
  obtain l ls where sp: "split_nl cs = l # ls"
    using split_nl_nonempty[of cs] by (cases "split_nl cs") auto
  show ?case
  proof (cases "cs = []")
    case True
    with Cons.prems show ?thesis by simp
  next
    case False
    with Cons sp have ih: "last (l # ls) \<noteq> [] \<and> last (last (l # ls)) = last cs" by simp
    with False sp show ?thesis by (cases ls) auto
  qed
qed


lemma normal_form_fixed:
  assumes cr: "CR \<notin> set s" and st: "stripped s"
  defines "y \<equiv> join [LF] (map rstrip (split_nl s))"
  shows "CR \<notin> set y" "stripped y" "split_nl y = map rstrip (split_nl s)"
proof -
  have lines_cr: "CR \<notin> set l" if "l \<in> set (map rstrip (split_nl s))" for l
  proof -
    from that obtain l' where l': "l' \<in> set (split_nl s)" "l = rstrip l'" by auto
    with set_split_nl[OF l'(1)] set_rstrip[of l'] cr show ?thesis by auto
  qed
  have lines_lf: "LF \<notin> set l" if "l \<in> set (map rstrip (split_nl s))" for l
  proof -
    from that obtain l' where l': "l' \<in> set (split_nl s)" "l = rstrip l'" by auto
    with split_nl_no_LF[OF l'(1)] set_rstrip[of l'] show ?thesis by auto
  qed
  from set_join[of "[LF]" "map rstrip (split_nl s)"] lines_cr CR_neq_LF
  show "CR \<notin> set y" unfolding y_def by auto
  have "map rstrip (split_nl s) \<noteq> []" by (simp add: split_nl_nonempty)
  with lines_lf show "split_nl y = map rstrip (split_nl s)"
    unfolding y_def by (intro split_nl_join) auto
  show "stripped y"
  proof (cases s)
    case Nil
    then show ?thesis by (simp add: y_def stripped_def rstrip_Nil)
  next
    case (Cons c cs)
    with st have c: "\<not> is_space c" and la: "\<not> is_space (last s)" by (auto simp: stripped_def)
    from c is_space_LF have "c \<noteq> LF" by auto
    then obtain t ls where sp: "split_nl s = (c # t) # ls"
      unfolding Cons using split_nl_hd by blast
    from c have "rstrip (c # t) = c # rstrip t" by (simp add: rstrip_Cons)
    with sp have "y = join [LF] ((c # rstrip t) # map rstrip ls)" by (simp add: y_def)
    with join_hd[of "c # rstrip t" "[LF]" "map rstrip ls"]
    have hd: "y \<noteq> []" "hd y = c" by simp_all
    from la is_space_LF have "last s \<noteq> LF" by auto
    with Cons split_nl_last[of s]
    have ll: "last (split_nl s) \<noteq> []" "last (last (split_nl s)) = last s" by simp_all
    with la have "rstrip (last (split_nl s)) = last (split_nl s)" by (intro rstrip_id) simp
    then have "last (map rstrip (split_nl s)) = last (split_nl s)"
      by (simp add: last_map split_nl_nonempty)
    with ll join_last[of "map rstrip (split_nl s)" "[LF]"]
    have "last y = last s" by (simp add: y_def split_nl_nonempty)
    with hd c la show ?thesis by (simp add: stripped_def)
  qed
qed

lemma normalize_output_eq:
  "normalize_output x = join [LF] (map rstrip (split_nl (strip (replace_cr (replace_crlf x)))))"
  by (simp add: normalize_output_def)

lemma normalize_output_facts:
  "CR \<notin> set (normalize_output x)" "stripped (normalize_output x)"
  "split_nl (normalize_output x) = map rstrip (split_nl (strip (replace_cr (replace_crlf x))))"
proof -
  let ?s = "strip (replace_cr (replace_crlf x))"
  have cr: "CR \<notin> set ?s" using set_strip[of "replace_cr (replace_crlf x)"] no_CR_replace_cr by blast
  have st: "stripped ?s" by (rule stripped_strip)
  from normal_form_fixed[OF cr st]
  show "CR \<notin> set (normalize_output x)" "stripped (normalize_output x)"
  "split_nl (normalize_output x) = map rstrip (split_nl (strip (replace_cr (replace_crlf x))))"
    unfolding normalize_output_eq by simp_all
qed

text \<open>
  Claim C9. Output normalization is idempotent: normalizing a normalized text changes nothing,
  for every text.
\<close>

theorem normalize_output_idempotent:
  "normalize_output (normalize_output x) = normalize_output x"
proof -
  let ?y = "normalize_output x"
  note f = normalize_output_facts[of x]
  have "replace_cr (replace_crlf ?y) = ?y" using f(1) by (simp add: replace_crlf_id replace_cr_id)
  moreover have "strip ?y = ?y" using f(2) by (rule strip_id)
  ultimately have "normalize_output ?y = join [LF] (map rstrip (split_nl ?y))"
    by (simp add: normalize_output_eq)
  also have "\<dots> = join [LF] (map rstrip (map rstrip (split_nl (strip (replace_cr (replace_crlf x))))))"
    by (simp only: f(3))
  also have "\<dots> = join [LF] (map rstrip (split_nl (strip (replace_cr (replace_crlf x)))))"
    by (simp add: rstrip_idem comp_def)
  also have "\<dots> = ?y" by (simp only: normalize_output_eq)
  finally show ?thesis .
qed



















section \<open>Properties of the review queue\<close>








end
